theory Spec2Isabelle
  imports Complex_Main "HOL-Library.Word"
begin

section \<open>The replay memory of common/replay\_memory/replay\_memory.py\<close>

text \<open>
  A shallow embedding of the class \<open>ReplayMemory\<close>. Python integers are \<open>int\<close>, the
  \<open>uint8\<close> arrays are lists of \<open>8 word\<close>, the \<open>int32\<close> array is a list of \<open>32 word\<close>.
  The \<open>float32\<close> reward array is a list of \<open>real\<close>: rounding is not part of the model.
  A frame (one \<open>height \<times> width\<close> image) is a value of an opaque type \<open>'img\<close> with a zero
  frame; the frame handed to \<open>add\<close> is taken to have the shape of the buffer's frames.
  A method that mutates the object and may raise returns the object as it is when the
  method stops, together with the exception raised, if any.
\<close>

subsection \<open>Exceptions and array primitives\<close>

datatype error = IndexError | ValueError | NameError | AssertionError | ZeroDivisionError
  | FileNotFoundError | UnpicklingError | OSError

text \<open>\<open>xs[i] = v\<close> on a numpy array: a negative index counts from the end.\<close>

definition set_item :: "'a list \<Rightarrow> int \<Rightarrow> 'a \<Rightarrow> error + 'a list" where
  "set_item xs i v =
     (let n = int (length xs) in
      if 0 \<le> i \<and> i < n then Inr (xs[nat i := v])
      else if - n \<le> i \<and> i < 0 then Inr (xs[nat (i + n) := v])
      else Inl IndexError)"

text \<open>\<open>xs.take(i, mode='raise')\<close> and \<open>xs[i]\<close> for one index.\<close>

definition take_raise :: "'a list \<Rightarrow> int \<Rightarrow> error + 'a" where
  "take_raise xs i =
     (let n = int (length xs) in
      if 0 \<le> i \<and> i < n then Inr (xs ! nat i)
      else if - n \<le> i \<and> i < 0 then Inr (xs ! nat (i + n))
      else Inl IndexError)"

text \<open>\<open>xs.take(i, mode='wrap')\<close> for one index; numpy refuses to take from an empty axis.\<close>

definition take_wrap :: "'a list \<Rightarrow> int \<Rightarrow> error + 'a" where
  "take_wrap xs i =
     (if xs = [] then Inl IndexError else Inr (xs ! nat (i mod int (length xs))))"

datatype take_mode = Raise | Wrap

definition take1 :: "take_mode \<Rightarrow> 'a list \<Rightarrow> int \<Rightarrow> error + 'a" where
  "take1 m xs i = (case m of Raise \<Rightarrow> take_raise xs i | Wrap \<Rightarrow> take_wrap xs i)"

text \<open>\<open>xs.take(indices, mode=m)\<close> for an index array: the first bad index raises.\<close>

fun take_many :: "take_mode \<Rightarrow> 'a list \<Rightarrow> int list \<Rightarrow> error + 'a list" where
  "take_many m xs [] = Inr []"
| "take_many m xs (i # is) =
     (case take1 m xs i of
        Inl e \<Rightarrow> Inl e
      | Inr v \<Rightarrow> (case take_many m xs is of Inl e \<Rightarrow> Inl e | Inr vs \<Rightarrow> Inr (v # vs)))"

text \<open>\<open>np.arange(a, b)\<close> for integers.\<close>

definition arange :: "int \<Rightarrow> int \<Rightarrow> int list" where
  "arange a b = [a..b - 1]"

text \<open>
  \<open>row[...] = v\<close> for a row of a two-dimensional array: the vector must have the row's
  length, or length one (it is then broadcast); otherwise numpy raises ValueError.
\<close>

definition set_row :: "'a list list \<Rightarrow> int \<Rightarrow> 'a list \<Rightarrow> error + 'a list list" where
  "set_row rows i v =
     (case take_raise rows i of
        Inl e \<Rightarrow> Inl e
      | Inr old \<Rightarrow>
          if length v = length old then set_item rows i v
          else if length v = 1 then set_item rows i (replicate (length old) (hd v))
          else Inl ValueError)"

subsection \<open>The buffer\<close>

record 'img replay_memory =
  width :: int
  height :: int
  max_steps :: int
  phi_length :: int
  num_actions :: int
  full_state_size :: int
  clip_reward :: bool
  imgs :: "'img list"
  actions :: "8 word list"
  rewards :: "real list"
  terminal :: "8 word list"
  lives :: "32 word list"
  loss_life :: "8 word list"
  gain_life :: "8 word list"
  full_state :: "8 word list list"
  size_rm :: int
  imgs_normalized :: bool
  wrap_memory :: bool
  bottom_rm :: int
  top_rm :: int

text \<open>
  \<open>__init__\<close>: \<open>np.zeros\<close> raises ValueError on a negative dimension. The random
  generator is not a field: the samplers below take its draws as an argument.
\<close>

definition init :: "int \<Rightarrow> int \<Rightarrow> int \<Rightarrow> int \<Rightarrow> int \<Rightarrow> bool \<Rightarrow> int \<Rightarrow> bool
    \<Rightarrow> error + ('img::zero) replay_memory" where
  "init w h ms phi na wrap fss clip =
     (if ms < 0 \<or> h < 0 \<or> w < 0 \<or> fss < 0 then Inl ValueError
      else Inr \<lparr> width = w, height = h, max_steps = ms, phi_length = phi, num_actions = na,
                 full_state_size = fss, clip_reward = clip,
                 imgs = replicate (nat ms) 0,
                 actions = replicate (nat ms) 0,
                 rewards = replicate (nat ms) 0,
                 terminal = replicate (nat ms) 0,
                 lives = replicate (nat ms) 0,
                 loss_life = replicate (nat ms) 0,
                 gain_life = replicate (nat ms) 0,
                 full_state = replicate (nat ms) (replicate (nat fss) 0),
                 size_rm = 0, imgs_normalized = False, wrap_memory = wrap,
                 bottom_rm = 0, top_rm = 0 \<rparr>)"

text \<open>
  A sequence of statements, each of which either updates the object or raises and leaves
  it as it was: the run stops at the first exception, keeping the updates made so far.
\<close>

fun run_steps :: "('s \<Rightarrow> error + 's) list \<Rightarrow> 's \<Rightarrow> 's \<times> error option" where
  "run_steps [] s = (s, None)"
| "run_steps (f # fs) s = (case f s of Inl e \<Rightarrow> (s, Some e) | Inr s' \<Rightarrow> run_steps fs s')"

definition lift_upd :: "error + 'a \<Rightarrow> ('a \<Rightarrow> 's) \<Rightarrow> error + 's" where
  "lift_upd r k = (case r of Inl e \<Rightarrow> Inl e | Inr a \<Rightarrow> Inr (k a))"

subsection \<open>add\<close>

text \<open>The default value of \<open>fullstate\<close>: \<open>np.zeros(1021)\<close>.\<close>

definition default_fullstate :: "8 word list" where
  "default_fullstate = replicate 1021 0"

text \<open>Lines 187 to 190: \<open>bottom\<close> moves on when a full wrapping buffer was written, else \<open>size\<close> grows.\<close>

definition advance_size :: "'img replay_memory \<Rightarrow> error + 'img replay_memory" where
  "advance_size rm =
     (if wrap_memory rm \<and> size_rm rm = max_steps rm then
        (if max_steps rm = 0 then Inl ZeroDivisionError
         else Inr (rm\<lparr> bottom_rm := (bottom_rm rm + 1) mod max_steps rm \<rparr>))
      else Inr (rm\<lparr> size_rm := size_rm rm + 1 \<rparr>))"

text \<open>Lines 192 and 193: in wrapping mode \<open>top\<close> moves on.\<close>

definition advance_top :: "'img replay_memory \<Rightarrow> error + 'img replay_memory" where
  "advance_top rm =
     (if wrap_memory rm then
        (if max_steps rm = 0 then Inl ZeroDivisionError
         else Inr (rm\<lparr> top_rm := (top_rm rm + 1) mod max_steps rm \<rparr>))
      else Inr rm)"

definition add :: "'img replay_memory \<Rightarrow> 'img \<Rightarrow> 8 word \<Rightarrow> real \<Rightarrow> bool \<Rightarrow> 32 word
    \<Rightarrow> bool \<Rightarrow> bool \<Rightarrow> 8 word list \<Rightarrow> 'img replay_memory \<times> error option" where
  "add rm img action reward term lvs losslife gainlife fullstate =
     (if \<not> wrap_memory rm \<and> size_rm rm = max_steps rm then (rm, None)
      else
        (let idx = (if wrap_memory rm then top_rm rm else size_rm rm) in
         run_steps
           [\<lambda>s. lift_upd (set_item (imgs s) idx img) (\<lambda>a. s\<lparr> imgs := a \<rparr>),
            \<lambda>s. lift_upd (set_item (actions s) idx action) (\<lambda>a. s\<lparr> actions := a \<rparr>),
            \<lambda>s. lift_upd (set_item (rewards s) idx reward) (\<lambda>a. s\<lparr> rewards := a \<rparr>),
            \<lambda>s. lift_upd (set_item (terminal s) idx (of_bool term)) (\<lambda>a. s\<lparr> terminal := a \<rparr>),
            \<lambda>s. lift_upd (set_item (lives s) idx lvs) (\<lambda>a. s\<lparr> lives := a \<rparr>),
            \<lambda>s. lift_upd (set_item (loss_life s) idx (of_bool losslife)) (\<lambda>a. s\<lparr> loss_life := a \<rparr>),
            \<lambda>s. lift_upd (set_item (gain_life s) idx (of_bool gainlife)) (\<lambda>a. s\<lparr> gain_life := a \<rparr>),
            \<lambda>s. lift_upd (set_row (full_state s) idx fullstate) (\<lambda>a. s\<lparr> full_state := a \<rparr>),
            advance_size, advance_top] rm))"




text \<open>
  The shape of a buffer that \<open>__init__\<close> builds and \<open>add\<close> keeps: every array has
  \<open>max_steps\<close> rows, the rows of \<open>full_state\<close> have \<open>full_state_size\<close> entries, and the
  counters are in range.
\<close>

definition well_formed :: "'img replay_memory \<Rightarrow> bool" where
  "well_formed rm \<longleftrightarrow>
     0 \<le> width rm \<and> 0 \<le> height rm \<and>
     0 \<le> max_steps rm \<and> 0 \<le> full_state_size rm \<and>
     int (length (imgs rm)) = max_steps rm \<and>
     int (length (actions rm)) = max_steps rm \<and>
     int (length (rewards rm)) = max_steps rm \<and>
     int (length (terminal rm)) = max_steps rm \<and>
     int (length (lives rm)) = max_steps rm \<and>
     int (length (loss_life rm)) = max_steps rm \<and>
     int (length (gain_life rm)) = max_steps rm \<and>
     int (length (full_state rm)) = max_steps rm \<and>
     list_all (\<lambda>row. int (length row) = full_state_size rm) (full_state rm) \<and>
     0 \<le> size_rm rm \<and> size_rm rm \<le> max_steps rm \<and>
     0 \<le> top_rm rm \<and> 0 \<le> bottom_rm rm \<and>
     (wrap_memory rm \<longrightarrow> 0 < max_steps rm \<and> top_rm rm < max_steps rm \<and> bottom_rm rm < max_steps rm)"

subsection \<open>The window accessor\<close>

text \<open>
  What \<open>__getitem__\<close> returns: the tuple of six \<open>None\<close> of lines 215 and 219, or the
  tuple of eight values of line 239.
\<close>

datatype 'img fetched =
    Unavailable
  | Window "'img list" "8 word" real "8 word" "'img list" "32 word" "8 word" "8 word"

definition bind_e :: "error + 'a \<Rightarrow> ('a \<Rightarrow> error + 'b) \<Rightarrow> error + 'b" where
  "bind_e r k = (case r of Inl e \<Rightarrow> Inl e | Inr a \<Rightarrow> k a)"

text \<open>\<open>np.any(self.terminal.take(indices, mode=m))\<close>.\<close>

definition any_terminal :: "take_mode \<Rightarrow> 8 word list \<Rightarrow> int list \<Rightarrow> error + bool" where
  "any_terminal m ts indices =
     bind_e (take_many m ts indices) (\<lambda>fl. Inr (list_ex (\<lambda>t. t \<noteq> 0) fl))"

text \<open>Lines 212 to 219: whether the window is refused.\<close>

definition refused :: "'img replay_memory \<Rightarrow> int \<Rightarrow> error + bool" where
  "refused rm key =
     (let indices = arange key (key + phi_length rm);
          end_index = key + phi_length rm - 1
      in if wrap_memory rm then any_terminal Wrap (terminal rm) (butlast indices)
         else if end_index \<ge> size_rm rm then Inr True
         else any_terminal Raise (terminal rm) (butlast indices))"

text \<open>Lines 221 to 239: the window is put together.\<close>

definition assemble :: "('img::zero) replay_memory \<Rightarrow> int \<Rightarrow> error + 'img fetched" where
  "assemble rm key =
     (let indices = arange key (key + phi_length rm);
          indices_next = arange (1 + key) (1 + key + phi_length rm);
          end_index = key + phi_length rm - 1;
          mode = (if wrap_memory rm then Wrap else Raise)
      in
      bind_e (take_many mode (imgs rm) indices) (\<lambda>state.
      bind_e (take1 mode (actions rm) end_index) (\<lambda>action.
      bind_e (take1 mode (rewards rm) end_index) (\<lambda>reward0.
      let reward = (if clip_reward rm then sgn reward0 else reward0) in
      bind_e (take1 mode (terminal rm) end_index) (\<lambda>term.
      bind_e (take1 mode (lives rm) end_index) (\<lambda>lvs.
      bind_e (take1 mode (loss_life rm) end_index) (\<lambda>losslife.
      bind_e (take1 mode (gain_life rm) end_index) (\<lambda>gainlife.
      bind_e (if term = 0 then take_many mode (imgs rm) indices_next
              else Inr (replicate (nat (phi_length rm)) 0)) (\<lambda>next_state.
      Inr (Window state action reward term next_state lvs losslife gainlife))))))))))"

text \<open>
  \<open>__getitem__\<close> (and \<open>get_item\<close>, which calls it). The two \<open>np.zeros\<close> of lines 205
  to 210 raise ValueError on a negative dimension.
\<close>

definition get_item :: "('img::zero) replay_memory \<Rightarrow> int \<Rightarrow> error + 'img fetched" where
  "get_item rm key =
     (if height rm < 0 \<or> width rm < 0 \<or> phi_length rm < 0 then Inl ValueError
      else bind_e (refused rm key) (\<lambda>no. if no then Inr Unavailable else assemble rm key))"

subsection \<open>The samplers\<close>

text \<open>
  The random generator is the list of its raw draws, one per call of \<open>randint\<close>:
  \<open>randint(low, high)\<close> raises ValueError on an empty range and otherwise maps the draw
  into \<open>[low, high)\<close>. A sampling loop that has used up the draws has not returned: the
  result is \<open>None\<close>.
\<close>

definition randint :: "int \<Rightarrow> int \<Rightarrow> nat \<Rightarrow> error + int" where
  "randint low high d = (if high \<le> low then Inl ValueError else Inr (low + int d mod (high - low)))"

text \<open>\<open>xs[a:b]\<close> with Python's treatment of negative and oversized bounds.\<close>

definition py_slice :: "'a list \<Rightarrow> int \<Rightarrow> int \<Rightarrow> 'a list" where
  "py_slice xs a b =
     (let n = int (length xs);
          clampi = (\<lambda>i. if i < 0 then max 0 (i + n) else min i n);
          lo = clampi a; hi = clampi b
      in take (nat (hi - lo)) (drop (nat lo) xs))"

text \<open>The batch of \<open>sample2\<close>: states, one-hot actions, rewards, terminals.\<close>

type_synonym 'img batch2 = "'img list list \<times> real list list \<times> real list \<times> int list"

text \<open>Lines 325 to 331: the look-ahead filter of \<open>sample2\<close>.\<close>

definition bad_ahead :: "'img replay_memory \<Rightarrow> int \<Rightarrow> int \<Rightarrow> bool" where
  "bad_ahead rm index k_bad_states =
     (let st_idx = index + (phi_length rm - 1);
          en_idx = index + (phi_length rm - 1) + k_bad_states
      in list_ex (\<lambda>r. r < 0) (py_slice (rewards rm) st_idx en_idx)
         \<or> list_ex (\<lambda>l. l = 1) (py_slice (loss_life rm) st_idx en_idx))"

text \<open>
  The loop of \<open>sample2\<close>, lines 323 to 352. Unpacking the tuple of six \<open>None\<close> into
  eight names raises ValueError. After a successful unpacking, line 334 reads the name
  \<open>s\<close>, which is bound nowhere: NameError. Lines 336 to 352 are never reached, so
  \<open>count\<close> and the arrays stay as they were allocated.
\<close>

fun sample2_loop :: "('img::zero) replay_memory \<Rightarrow> int \<Rightarrow> int \<Rightarrow> int \<Rightarrow> int \<Rightarrow> 'img batch2
    \<Rightarrow> nat list \<Rightarrow> (error + 'img batch2) option" where
  "sample2_loop rm batch_size k_bad_states high count acc draws =
     (if count < batch_size then
        (case draws of
           [] \<Rightarrow> None
         | d # ds \<Rightarrow>
             (case randint 0 high d of
                Inl e \<Rightarrow> Some (Inl e)
              | Inr index \<Rightarrow>
                  if k_bad_states \<noteq> 0 \<and> bad_ahead rm index k_bad_states
                  then sample2_loop rm batch_size k_bad_states high count acc ds
                  else (case get_item rm index of
                          Inl e \<Rightarrow> Some (Inl e)
                        | Inr Unavailable \<Rightarrow> Some (Inl ValueError)
                        | Inr (Window s0 a r t s1 l ll gl) \<Rightarrow> Some (Inl NameError))))
      else Some (Inr acc))"

text \<open>
  \<open>sample2\<close>. The argument \<open>normalize\<close> only chooses the type of the pixels and
  \<open>onevsall\<close> the width of the action rows; \<open>n_class\<close> is read in the unreachable part
  of the loop only.
  The alias \<open>np.int\<close> of line 311 is taken to exist, as in the numpy releases the
  code was written for.
\<close>

definition sample2 :: "('img::zero) replay_memory \<Rightarrow> int \<Rightarrow> bool \<Rightarrow> int \<Rightarrow> bool \<Rightarrow> int option
    \<Rightarrow> nat list \<Rightarrow> (error + 'img batch2) option" where
  "sample2 rm batch_size normalize_arg k_bad_states onevsall n_class draws =
     (if wrap_memory rm then Some (Inl AssertionError)
      else if batch_size < 0 \<or> height rm < 0 \<or> width rm < 0 \<or> phi_length rm < 0
        then Some (Inl ValueError)
      else if \<not> onevsall \<and> num_actions rm < 0 then Some (Inl ValueError)
      else
        (let states = replicate (nat batch_size) (replicate (nat (phi_length rm)) 0);
             acts = replicate (nat batch_size)
                      (replicate (if onevsall then 2 else nat (num_actions rm)) 0);
             rews = replicate (nat batch_size) 0;
             terminals = replicate (nat batch_size) 0;
             high = (size_rm rm + 1) - phi_length rm
         in if \<not> high > 0 then Some (Inl AssertionError)
            else sample2_loop rm batch_size k_bad_states high 0
                   (states, acts, rews, terminals) draws))"

text \<open>The batch of \<open>sample\<close>: states, one-hot actions, rewards, terminals, next states.\<close>

type_synonym 'img batch =
  "'img list list \<times> real list list \<times> real list \<times> int list \<times> 'img list list"

text \<open>
  Lines 391 to 407: one accepted window is written into row \<open>count\<close> of the batch.
  Scaling the pixels by 255 happens inside the frames and is not modelled.
\<close>

definition store :: "'img batch \<Rightarrow> int \<Rightarrow> bool \<Rightarrow> int option \<Rightarrow> 'img list \<Rightarrow> 8 word \<Rightarrow> real
    \<Rightarrow> 8 word \<Rightarrow> 'img list \<Rightarrow> error + 'img batch" where
  "store acc count onevsall n_class s0 a r t s1 =
     (case acc of (states, acts, rews, terminals, next_states) \<Rightarrow>
        bind_e (set_item states count s0) (\<lambda>states'.
        bind_e (set_item next_states count s1) (\<lambda>next_states'.
        bind_e (take_raise acts count) (\<lambda>row.
        bind_e (set_item row
                  (if onevsall then (if Some (uint a) = n_class then 0 else 1) else uint a) 1)
          (\<lambda>row'.
        bind_e (set_item acts count row') (\<lambda>acts'.
        bind_e (set_item rews count r) (\<lambda>rews'.
        bind_e (set_item terminals count (uint t)) (\<lambda>terminals'.
        Inr (states', acts', rews', terminals', next_states')))))))))"

text \<open>The loop of \<open>sample\<close>, lines 379 to 408.\<close>

fun sample_loop :: "('img::zero) replay_memory \<Rightarrow> int \<Rightarrow> bool \<Rightarrow> int option \<Rightarrow> int \<Rightarrow> 'img batch
    \<Rightarrow> nat list \<Rightarrow> (error + 'img batch) option" where
  "sample_loop rm batch_size onevsall n_class count acc draws =
     (if count < batch_size then
        (case draws of
           [] \<Rightarrow> None
         | d # ds \<Rightarrow>
             (case randint (bottom_rm rm) (bottom_rm rm + size_rm rm - phi_length rm) d of
                Inl e \<Rightarrow> Some (Inl e)
              | Inr index \<Rightarrow>
                  (case any_terminal Wrap (terminal rm)
                          (butlast (arange index (index + phi_length rm + 1))) of
                     Inl e \<Rightarrow> Some (Inl e)
                   | Inr True \<Rightarrow> sample_loop rm batch_size onevsall n_class count acc ds
                   | Inr False \<Rightarrow>
                       (case get_item rm index of
                          Inl e \<Rightarrow> Some (Inl e)
                        | Inr Unavailable \<Rightarrow> Some (Inl ValueError)
                        | Inr (Window s0 a r t s1 l ll gl) \<Rightarrow>
                            (case store acc count onevsall n_class s0 a r t s1 of
                               Inl e \<Rightarrow> Some (Inl e)
                             | Inr acc' \<Rightarrow>
                                 sample_loop rm batch_size onevsall n_class (count + 1) acc' ds)))))
      else Some (Inr acc))"

definition sample :: "('img::zero) replay_memory \<Rightarrow> int \<Rightarrow> bool \<Rightarrow> bool \<Rightarrow> int option
    \<Rightarrow> nat list \<Rightarrow> (error + 'img batch) option" where
  "sample rm batch_size normalize_arg onevsall n_class draws =
     (if \<not> wrap_memory rm then Some (Inl AssertionError)
      else if batch_size < 0 \<or> height rm < 0 \<or> width rm < 0 \<or> phi_length rm < 0
        then Some (Inl ValueError)
      else if \<not> onevsall \<and> num_actions rm < 0 then Some (Inl ValueError)
      else
        (let states = replicate (nat batch_size) (replicate (nat (phi_length rm)) 0);
             next_states = replicate (nat batch_size) (replicate (nat (phi_length rm)) 0);
             acts = replicate (nat batch_size)
                      (replicate (if onevsall then 2 else nat (num_actions rm)) 0);
             rews = replicate (nat batch_size) 0;
             terminals = replicate (nat batch_size) 0
         in sample_loop rm batch_size onevsall n_class 0
              (states, acts, rews, terminals, next_states) draws))"

subsection \<open>propagate\_rewards\<close>

text \<open>\<open>np.clip(self.rewards, -1., 1., out=self.rewards)\<close>.\<close>

definition clip_rewards :: "real list \<Rightarrow> real list" where
  "clip_rewards rs = map (\<lambda>r. min 1 (max (- 1) r)) rs"

definition np_mean :: "real list \<Rightarrow> real" where
  "np_mean xs = sum_list xs / real (length xs)"

text \<open>The square of \<open>np.std\<close>.\<close>

definition np_var :: "real list \<Rightarrow> real" where
  "np_var xs = np_mean (map (\<lambda>x. (x - np_mean xs)\<^sup>2) xs)"

text \<open>
  Lines 93 to 98. \<open>|r - mean| > 2 * std\<close> is written with squares. With no nonzero
  reward the mean is not a number, no comparison holds and nothing is an outlier.
\<close>

definition suppress_outliers :: "real list \<Rightarrow> real \<Rightarrow> real list" where
  "suppress_outliers rs max_reward =
     (let nz = filter (\<lambda>r. r \<noteq> 0) rs in
      if nz = [] then rs
      else
        (let m = np_mean nz; v = np_var nz;
             outliers = filter (\<lambda>r. (r - m)\<^sup>2 > 4 * v) rs
         in fold (\<lambda>outlier cur.
                    if outlier \<noteq> 0
                    then map (\<lambda>r. if r = outlier
                                   then (if outlier > 0 then max_reward else - max_reward)
                                   else r) cur
                    else cur) outliers rs))"

text \<open>Line 105, for one \<open>i\<close>.\<close>

definition discount_step :: "real \<Rightarrow> int \<Rightarrow> 'img replay_memory \<Rightarrow> error + 'img replay_memory" where
  "discount_step gamma i rm =
     bind_e (take_raise (rewards rm) i) (\<lambda>ri.
     bind_e (take_raise (rewards rm) (i + 1)) (\<lambda>rn.
     lift_upd (set_item (rewards rm) i (ri + gamma * rn)) (\<lambda>a. rm\<lparr> rewards := a \<rparr>)))"

text \<open>
  \<open>propagate_rewards\<close>. With \<open>minmax_scale\<close>, the import of line 108 is taken to
  succeed; line 110 then reads the name \<open>scaler\<close>, which is bound nowhere. The arguments of the last two log calls are evaluated whatever the
  log level is: \<open>np.min\<close> of an empty selection raises ValueError.
\<close>

definition propagate_rewards :: "'img replay_memory \<Rightarrow> real \<Rightarrow> bool \<Rightarrow> bool \<Rightarrow> bool \<Rightarrow> bool
    \<Rightarrow> real \<Rightarrow> 'img replay_memory \<times> error option" where
  "propagate_rewards rm gamma clip normalize_arg minmax_scale exclude_outlier max_reward =
     run_steps
       ([\<lambda>s. Inr (if clip then s\<lparr> rewards := clip_rewards (rewards s) \<rparr>
                  else if exclude_outlier \<and> max_reward \<noteq> 0
                    then s\<lparr> rewards := suppress_outliers (rewards s) max_reward \<rparr>
                  else s),
         \<lambda>s. Inr (if normalize_arg \<and> max_reward \<noteq> 0
                  then s\<lparr> rewards := map (\<lambda>r. r / max_reward) (rewards s) \<rparr> else s)]
        @ map (discount_step gamma) (rev [1..size_rm rm - 2])
        @ [\<lambda>s. if minmax_scale then Inl NameError else Inr s,
           \<lambda>s. if filter (\<lambda>r. r \<noteq> 0) (rewards s) = [] then Inl ValueError else Inr s]) rm"

subsection \<open>resize\<close>

text \<open>
  \<open>np.delete(xs, range(lo, hi), axis=0)\<close>: an index outside \<open>[-n, n)\<close> raises IndexError,
  a negative one counts from the end; the result is a new array.
\<close>

definition np_delete_range :: "'a list \<Rightarrow> int \<Rightarrow> int \<Rightarrow> error + 'a list" where
  "np_delete_range xs lo hi =
     (let n = int (length xs); idxs = [lo..hi - 1] in
      if list_ex (\<lambda>i. i < - n \<or> n \<le> i) idxs then Inl IndexError
      else
        (let dels = map (\<lambda>i. nat (if i < 0 then i + n else i)) idxs
         in Inr (map fst (filter (\<lambda>p. snd p \<notin> set dels) (zip xs [0..<length xs])))))"

text \<open>\<open>resize\<close>: the eight shortened arrays are computed first, then assigned.\<close>

definition resize :: "'img replay_memory \<Rightarrow> 'img replay_memory \<times> error option" where
  "resize rm =
     (let lo = size_rm rm; hi = max_steps rm in
      case
        bind_e (np_delete_range (imgs rm) lo hi) (\<lambda>tmp_imgs.
        bind_e (np_delete_range (actions rm) lo hi) (\<lambda>tmp_actions.
        bind_e (np_delete_range (rewards rm) lo hi) (\<lambda>tmp_rewards.
        bind_e (np_delete_range (terminal rm) lo hi) (\<lambda>tmp_terminal.
        bind_e (np_delete_range (lives rm) lo hi) (\<lambda>tmp_lives.
        bind_e (np_delete_range (loss_life rm) lo hi) (\<lambda>tmp_losslife.
        bind_e (np_delete_range (gain_life rm) lo hi) (\<lambda>tmp_gainlife.
        bind_e (np_delete_range (full_state rm) lo hi) (\<lambda>tmp_fullstate.
        Inr (rm\<lparr> imgs := tmp_imgs, actions := tmp_actions, rewards := tmp_rewards,
                  terminal := tmp_terminal, lives := tmp_lives, loss_life := tmp_losslife,
                  gain_life := tmp_gainlife, full_state := tmp_fullstate,
                  max_steps := size_rm rm \<rparr>)))))))))
      of Inl e \<Rightarrow> (rm, Some e) | Inr rm' \<Rightarrow> (rm', None))"

subsection \<open>save and load\<close>

text \<open>
  The pickled dictionary of \<open>save\<close>. The keys that \<open>load\<close> reads with \<open>data.get\<close> may
  be missing from an older file.
\<close>

record pkl_data =
  d_width :: int
  d_height :: int
  d_max_steps :: int
  d_phi_length :: int
  d_num_actions :: int
  d_actions :: "8 word list"
  d_rewards :: "real list"
  d_terminal :: "8 word list"
  d_lives :: "32 word list option"
  d_loss_life :: "8 word list option"
  d_gain_life :: "8 word list option"
  d_full_state_size :: "int option"
  d_full_state :: "8 word list list option"
  d_size :: int
  d_wrap_memory :: bool
  d_top :: int
  d_bottom :: int
  d_imgs_normalized :: bool

text \<open>The files on disk, by path.\<close>

datatype 'img disk_file = Pickled pkl_data | Images "'img list"

type_synonym 'img files = "string \<Rightarrow> 'img disk_file option"

text \<open>
  Modelled from the spec: \<open>save_compressed_images\<close> of \<open>common.util\<close> is not among the
  sources. It writes the image array, compressed without loss, to the companion artifact
  \<open><name>-images.<ext>.<compression-ext>\<close>, that is to the path it is given followed by
  \<open>.gz\<close>, the path \<open>load\<close> reads from.
\<close>

definition save_compressed_images :: "string \<Rightarrow> 'img list \<Rightarrow> 'img files \<Rightarrow> 'img files" where
  "save_compressed_images h5file images fs = fs(h5file @ ''.gz'' \<mapsto> Images images)"

text \<open>
  Modelled from the spec: \<open>get_compressed_images\<close> of \<open>common.util\<close> is not among the
  sources. It reads the compressed archive at the given path back into the image array.
\<close>

definition get_compressed_images :: "string \<Rightarrow> 'img files \<Rightarrow> error + 'img list" where
  "get_compressed_images path fs =
     (case fs path of
        None \<Rightarrow> Inl FileNotFoundError
      | Some (Pickled d) \<Rightarrow> Inl OSError
      | Some (Images images) \<Rightarrow> Inr images)"

definition save :: "'img replay_memory \<Rightarrow> string option \<Rightarrow> string option \<Rightarrow> bool \<Rightarrow> 'img files
    \<Rightarrow> ('img replay_memory \<times> 'img files) \<times> error option" where
  "save rm name folder resize_arg fs =
     (case name of
        None \<Rightarrow> ((rm, fs), Some AssertionError)
      | Some nm \<Rightarrow>
     (case folder of
        None \<Rightarrow> ((rm, fs), Some AssertionError)
      | Some fd \<Rightarrow>
     (case (if resize_arg then resize rm else (rm, None)) of
        (rm1, Some e) \<Rightarrow> ((rm1, fs), Some e)
      | (rm1, None) \<Rightarrow>
          (let data = \<lparr> d_width = width rm1, d_height = height rm1,
                        d_max_steps = max_steps rm1, d_phi_length = phi_length rm1,
                        d_num_actions = num_actions rm1, d_actions = actions rm1,
                        d_rewards = rewards rm1, d_terminal = terminal rm1,
                        d_lives = Some (lives rm1), d_loss_life = Some (loss_life rm1),
                        d_gain_life = Some (gain_life rm1),
                        d_full_state_size = Some (full_state_size rm1),
                        d_full_state = Some (full_state rm1), d_size = size_rm rm1,
                        d_wrap_memory = wrap_memory rm1, d_top = top_rm rm1,
                        d_bottom = bottom_rm rm1, d_imgs_normalized = imgs_normalized rm1 \<rparr>;
               images = imgs rm1;
               pkl_file = nm @ ''.pkl'';
               h5_file = nm @ ''-images.h5'';
               fs1 = fs(fd @ ''/'' @ pkl_file \<mapsto> Pickled data);
               fs2 = save_compressed_images (fd @ ''/'' @ h5_file) images fs1
           in ((rm1, fs2), None)))))"

text \<open>
  \<open>load\<close>. The defaults of \<open>data.get\<close> are evaluated even when the key is there:
  \<open>np.zeros\<close> raises ValueError on a negative dimension.
\<close>

definition load :: "'img replay_memory \<Rightarrow> string option \<Rightarrow> string option \<Rightarrow> 'img files
    \<Rightarrow> 'img replay_memory \<times> error option" where
  "load rm name folder fs =
     (case name of
        None \<Rightarrow> (rm, Some AssertionError)
      | Some nm \<Rightarrow>
     (case folder of
        None \<Rightarrow> (rm, Some AssertionError)
      | Some fd \<Rightarrow>
     (let pkl_file = nm @ ''.pkl''; h5_file = nm @ ''-images.h5'' in
      case fs (fd @ ''/'' @ pkl_file) of
        None \<Rightarrow> (rm, Some FileNotFoundError)
      | Some (Images images) \<Rightarrow> (rm, Some UnpicklingError)
      | Some (Pickled data) \<Rightarrow>
          run_steps
            [\<lambda>s. Inr (s\<lparr> width := d_width data, height := d_height data,
                          max_steps := d_max_steps data, phi_length := d_phi_length data,
                          num_actions := d_num_actions data, actions := d_actions data,
                          rewards := d_rewards data, terminal := d_terminal data \<rparr>),
             \<lambda>s. if max_steps s < 0 then Inl ValueError
                  else Inr (s\<lparr> lives := (case d_lives data of Some v \<Rightarrow> v
                                 | None \<Rightarrow> replicate (nat (max_steps s)) 0) \<rparr>),
             \<lambda>s. if max_steps s < 0 then Inl ValueError
                  else Inr (s\<lparr> loss_life := (case d_loss_life data of Some v \<Rightarrow> v
                                 | None \<Rightarrow> replicate (nat (max_steps s)) 0) \<rparr>),
             \<lambda>s. if max_steps s < 0 then Inl ValueError
                  else Inr (s\<lparr> gain_life := (case d_gain_life data of Some v \<Rightarrow> v
                                 | None \<Rightarrow> replicate (nat (max_steps s)) 0) \<rparr>),
             \<lambda>s. Inr (s\<lparr> full_state_size := (case d_full_state_size data of Some v \<Rightarrow> v
                                 | None \<Rightarrow> full_state_size s) \<rparr>),
             \<lambda>s. if max_steps s < 0 \<or> full_state_size s < 0 then Inl ValueError
                  else Inr (s\<lparr> full_state := (case d_full_state data of Some v \<Rightarrow> v
                                 | None \<Rightarrow> replicate (nat (max_steps s))
                                             (replicate (nat (full_state_size s)) 0)) \<rparr>),
             \<lambda>s. Inr (s\<lparr> size_rm := d_size data, wrap_memory := d_wrap_memory data,
                          top_rm := d_top data, bottom_rm := d_bottom data,
                          imgs_normalized := d_imgs_normalized data \<rparr>),
             \<lambda>s. lift_upd (get_compressed_images (fd @ ''/'' @ h5_file @ ''.gz'') fs)
                    (\<lambda>a. s\<lparr> imgs := a \<rparr>)] rm)))"

subsection \<open>Auxiliary notions for the statements about add\<close>

text \<open>The slot that \<open>add\<close> writes.\<close>

definition slot :: "'img replay_memory \<Rightarrow> nat" where
  "slot rm = nat (if wrap_memory rm then top_rm rm else size_rm rm)"

text \<open>The buffer after the first seven writes of \<open>add\<close>, lines 178 to 184.\<close>

definition written7 :: "'img replay_memory \<Rightarrow> 'img \<Rightarrow> 8 word \<Rightarrow> real \<Rightarrow> bool \<Rightarrow> 32 word
    \<Rightarrow> bool \<Rightarrow> bool \<Rightarrow> 'img replay_memory" where
  "written7 rm img a r t l ll gl =
     rm\<lparr> imgs := (imgs rm)[slot rm := img], actions := (actions rm)[slot rm := a],
         rewards := (rewards rm)[slot rm := r], terminal := (terminal rm)[slot rm := of_bool t],
         lives := (lives rm)[slot rm := l], loss_life := (loss_life rm)[slot rm := of_bool ll],
         gain_life := (gain_life rm)[slot rm := of_bool gl] \<rparr>"

text \<open>The counters after a successful \<open>add\<close>, lines 187 to 193.\<close>

definition bumped :: "'img replay_memory \<Rightarrow> 'img replay_memory" where
  "bumped rm =
     (if wrap_memory rm then
        (if size_rm rm = max_steps rm
         then rm\<lparr> bottom_rm := (bottom_rm rm + 1) mod max_steps rm,
                   top_rm := (top_rm rm + 1) mod max_steps rm \<rparr>
         else rm\<lparr> size_rm := size_rm rm + 1, top_rm := (top_rm rm + 1) mod max_steps rm \<rparr>)
      else rm\<lparr> size_rm := size_rm rm + 1 \<rparr>)"

subsection \<open>Example buffers\<close>

text \<open>
  The frames of the examples are \<open>1 \<times> 1\<close> images, given by their pixel. An empty bounded
  buffer of three slots with windows of two frames and full-state rows of width two.
\<close>

definition ex_bounded :: "8 word replay_memory" where
  "ex_bounded =
     \<lparr> width = 1, height = 1, max_steps = 3, phi_length = 2, num_actions = 2,
       full_state_size = 2, clip_reward = True,
       imgs = [0, 0, 0], actions = [0, 0, 0], rewards = [0, 0, 0], terminal = [0, 0, 0],
       lives = [0, 0, 0], loss_life = [0, 0, 0], gain_life = [0, 0, 0],
       full_state = [[0, 0], [0, 0], [0, 0]],
       size_rm = 0, imgs_normalized = False, wrap_memory = False,
       bottom_rm = 0, top_rm = 0 \<rparr>"

text \<open>
  A bounded buffer of four slots holding three time steps, the first of which ended an
  episode.
\<close>

definition ex_episode :: "8 word replay_memory" where
  "ex_episode =
     \<lparr> width = 1, height = 1, max_steps = 4, phi_length = 2, num_actions = 2,
       full_state_size = 2, clip_reward = True,
       imgs = [10, 11, 12, 0], actions = [0, 1, 1, 0], rewards = [0, 2, 0, 0],
       terminal = [1, 0, 0, 0],
       lives = [3, 3, 3, 0], loss_life = [0, 0, 0, 0], gain_life = [0, 0, 0, 0],
       full_state = [[0, 0], [0, 0], [0, 0], [0, 0]],
       size_rm = 3, imgs_normalized = False, wrap_memory = False,
       bottom_rm = 0, top_rm = 0 \<rparr>"

text \<open>A full bounded buffer of three slots whose second time step ended an episode.\<close>

definition ex_full :: "8 word replay_memory" where
  "ex_full =
     \<lparr> width = 1, height = 1, max_steps = 3, phi_length = 2, num_actions = 2,
       full_state_size = 2, clip_reward = True,
       imgs = [10, 11, 12], actions = [0, 1, 1], rewards = [0, 2, 0],
       terminal = [0, 1, 0],
       lives = [3, 3, 3], loss_life = [0, 0, 0], gain_life = [0, 0, 0],
       full_state = [[0, 0], [0, 0], [0, 0]],
       size_rm = 3, imgs_normalized = False, wrap_memory = False,
       bottom_rm = 0, top_rm = 0 \<rparr>"

text \<open>A wrapping buffer of three slots after one \<open>add\<close>.\<close>

definition ex_wrap :: "8 word replay_memory" where
  "ex_wrap =
     \<lparr> width = 1, height = 1, max_steps = 3, phi_length = 2, num_actions = 2,
       full_state_size = 2, clip_reward = True,
       imgs = [10, 0, 0], actions = [1, 0, 0], rewards = [1, 0, 0],
       terminal = [0, 0, 0],
       lives = [3, 0, 0], loss_life = [0, 0, 0], gain_life = [0, 0, 0],
       full_state = [[4, 5], [0, 0], [0, 0]],
       size_rm = 1, imgs_normalized = False, wrap_memory = True,
       bottom_rm = 0, top_rm = 1 \<rparr>"



text \<open>A full wrapping buffer of four slots whose first time step ended an episode.\<close>

definition ex_ring :: "8 word replay_memory" where
  "ex_ring =
     \<lparr> width = 1, height = 1, max_steps = 4, phi_length = 2, num_actions = 2,
       full_state_size = 2, clip_reward = True,
       imgs = [10, 11, 12, 13], actions = [0, 1, 1, 0], rewards = [0, 2, 0, 0],
       terminal = [1, 0, 0, 0],
       lives = [3, 3, 3, 3], loss_life = [0, 0, 0, 0], gain_life = [0, 0, 0, 0],
       full_state = [[0, 0], [0, 0], [0, 0], [0, 0]],
       size_rm = 4, imgs_normalized = False, wrap_memory = True,
       bottom_rm = 0, top_rm = 0 \<rparr>"

text \<open>A full bounded buffer of four slots with the rewards 0, 0, 1, 0.\<close>

definition ex_rewards :: "8 word replay_memory" where
  "ex_rewards =
     \<lparr> width = 1, height = 1, max_steps = 4, phi_length = 2, num_actions = 2,
       full_state_size = 2, clip_reward = True,
       imgs = [10, 11, 12, 13], actions = [0, 1, 1, 0], rewards = [0, 0, 1, 0],
       terminal = [0, 0, 0, 1],
       lives = [3, 3, 3, 3], loss_life = [0, 0, 0, 0], gain_life = [0, 0, 0, 0],
       full_state = [[0, 0], [0, 0], [0, 0], [0, 0]],
       size_rm = 4, imgs_normalized = False, wrap_memory = False,
       bottom_rm = 0, top_rm = 0 \<rparr>"

section \<open>Properties\<close>

subsection \<open>add\<close>

lemma set_item_in_range:
  "0 \<le> i \<Longrightarrow> i < int (length xs) \<Longrightarrow> set_item xs i v = Inr (xs[nat i := v])"
  by (simp add: set_item_def)

lemma take_raise_in_range:
  "0 \<le> i \<Longrightarrow> i < int (length xs) \<Longrightarrow> take_raise xs i = Inr (xs ! nat i)"
  by (simp add: take_raise_def)

lemma set_row_fits:
  "0 \<le> i \<Longrightarrow> i < int (length rows) \<Longrightarrow> length v = length (rows ! nat i)
     \<Longrightarrow> set_row rows i v = Inr (rows[nat i := v])"
  by (simp add: set_row_def take_raise_in_range set_item_in_range)

lemma set_row_broadcast:
  "0 \<le> i \<Longrightarrow> i < int (length rows) \<Longrightarrow> length v \<noteq> length (rows ! nat i) \<Longrightarrow> length v = 1
     \<Longrightarrow> set_row rows i v = Inr (rows[nat i := replicate (length (rows ! nat i)) (hd v)])"
  by (simp add: set_row_def take_raise_in_range set_item_in_range)

lemma set_row_misfit:
  "0 \<le> i \<Longrightarrow> i < int (length rows) \<Longrightarrow> length v \<noteq> length (rows ! nat i) \<Longrightarrow> length v \<noteq> 1
     \<Longrightarrow> set_row rows i v = Inl ValueError"
  by (simp add: set_row_def take_raise_in_range)

lemma slot_in_range:
  assumes "well_formed rm" "wrap_memory rm \<or> size_rm rm \<noteq> max_steps rm"
  shows "int (slot rm) < max_steps rm"
    and "int (slot rm) = (if wrap_memory rm then top_rm rm else size_rm rm)"
  using assms by (auto simp: well_formed_def slot_def)

lemma row_width:
  assumes "well_formed rm" "int n < max_steps rm"
  shows "int (length (full_state rm ! n)) = full_state_size rm"
proof -
  have "n < length (full_state rm)"
    using assms by (auto simp: well_formed_def)
  moreover have "\<forall>k < length (full_state rm). int (length (full_state rm ! k)) = full_state_size rm"
    using assms(1) by (simp add: well_formed_def list_all_length)
  ultimately show ?thesis by blast
qed

lemma add_run:
  assumes "well_formed rm" "wrap_memory rm \<or> size_rm rm \<noteq> max_steps rm"
  shows "add rm img a r t l ll gl fs =
    (let rm7 = written7 rm img a r t l ll gl in
     if int (length fs) = full_state_size rm
       then (bumped (rm7\<lparr> full_state := (full_state rm)[slot rm := fs] \<rparr>), None)
     else if length fs = 1
       then (bumped (rm7\<lparr> full_state := (full_state rm)[slot rm :=
                               replicate (nat (full_state_size rm)) (hd fs)] \<rparr>), None)
     else (rm7, Some ValueError))"
proof -
  define idx where "idx = (if wrap_memory rm then top_rm rm else size_rm rm)"
  have r: "0 \<le> idx" "idx < max_steps rm" "slot rm = nat idx"
    using assms by (auto simp: well_formed_def idx_def slot_def)
  have w: "int (length (full_state rm ! nat idx)) = full_state_size rm"
    using row_width[OF assms(1), of "nat idx"] r by simp
  have L: "idx < int (length (imgs rm))" "idx < int (length (actions rm))"
    "idx < int (length (rewards rm))" "idx < int (length (terminal rm))"
    "idx < int (length (lives rm))" "idx < int (length (loss_life rm))"
    "idx < int (length (gain_life rm))" "idx < int (length (full_state rm))"
    using assms(1) r by (auto simp: well_formed_def)
  have m: "0 < max_steps rm" using r by simp
  consider (fit) "int (length fs) = full_state_size rm"
    | (bc) "int (length fs) \<noteq> full_state_size rm" "length fs = 1"
    | (bad) "int (length fs) \<noteq> full_state_size rm" "length fs \<noteq> 1" by blast
  then show ?thesis
  proof cases
    case fit
    then have "length fs = length (full_state rm ! nat idx)" using w by simp
    then show ?thesis
      using assms(2) r L m fit
      unfolding add_def idx_def[symmetric] Let_def
      by (auto simp: lift_upd_def set_item_in_range set_row_fits advance_size_def advance_top_def written7_def bumped_def)
  next
    case bc
    then have "length fs \<noteq> length (full_state rm ! nat idx)" using w by auto
    moreover have "length (full_state rm ! nat idx) = nat (full_state_size rm)" using w by simp
    ultimately show ?thesis
      using assms(2) r L m bc
      unfolding add_def idx_def[symmetric] Let_def
      by (auto simp: lift_upd_def set_item_in_range set_row_broadcast advance_size_def advance_top_def written7_def bumped_def)
  next
    case bad
    then have "length fs \<noteq> length (full_state rm ! nat idx)" using w by auto
    then show ?thesis
      using assms(2) r L m bad
      unfolding add_def idx_def[symmetric] Let_def
      by (auto simp: lift_upd_def set_item_in_range set_row_misfit advance_size_def advance_top_def written7_def)
  qed
qed




lemma well_formed_ex_bounded: "well_formed ex_bounded"
  by (simp add: well_formed_def ex_bounded_def)

text \<open>
  Claim C10. The default \<open>fullstate\<close> of \<open>add\<close> has 1021 entries. In a buffer whose
  \<open>full_state_size\<close> is not 1021, a call of \<open>add\<close> that leaves \<open>fullstate\<close> out and is not
  turned away because the bounded buffer is full raises ValueError at line 185: the
  counters and the \<open>full_state\<close> array stay as they were, the transition is not recorded.
\<close>

theorem add_default_fullstate_fails:
  assumes "well_formed rm" and "full_state_size rm \<noteq> 1021"
    and "wrap_memory rm \<or> size_rm rm \<noteq> max_steps rm"
  shows "snd (add rm img a r t l ll gl default_fullstate) = Some ValueError
       \<and> size_rm (fst (add rm img a r t l ll gl default_fullstate)) = size_rm rm
       \<and> top_rm (fst (add rm img a r t l ll gl default_fullstate)) = top_rm rm
       \<and> full_state (fst (add rm img a r t l ll gl default_fullstate)) = full_state rm"
proof -
  have len: "length default_fullstate = 1021"
    by (simp add: default_fullstate_def)
  have "add rm img a r t l ll gl default_fullstate = (written7 rm img a r t l ll gl, Some ValueError)"
    using assms(2) by (simp add: add_run[OF assms(1,3)] len)
  then show ?thesis by (simp add: written7_def)
qed

theorem add_default_fullstate_fails_witness:
  "well_formed ex_bounded \<and> full_state_size ex_bounded \<noteq> 1021
   \<and> (wrap_memory ex_bounded \<or> size_rm ex_bounded \<noteq> max_steps ex_bounded)
   \<and> snd (add ex_bounded 7 1 1 False 3 False False default_fullstate) = Some ValueError
   \<and> size_rm (fst (add ex_bounded 7 1 1 False 3 False False default_fullstate)) = 0"
proof -
  have h2: "full_state_size ex_bounded \<noteq> 1021" by (simp add: ex_bounded_def)
  have h3: "wrap_memory ex_bounded \<or> size_rm ex_bounded \<noteq> max_steps ex_bounded"
    by (simp add: ex_bounded_def)
  have s: "size_rm ex_bounded = 0" by (simp add: ex_bounded_def)
  show ?thesis
    using add_default_fullstate_fails[OF well_formed_ex_bounded h2 h3, of 7 1 1 False 3 False False]
      well_formed_ex_bounded h2 h3 s
    by simp
qed






lemma init_well_formed:
  assumes "init w h ms phi na wrap fss clip = Inr rm" and "wrap \<longrightarrow> 0 < ms"
  shows "well_formed rm"
proof -
  have n: "\<not> (ms < 0 \<or> h < 0 \<or> w < 0 \<or> fss < 0)"
    using assms(1) by (auto simp: init_def)
  then have "rm = \<lparr> width = w, height = h, max_steps = ms, phi_length = phi, num_actions = na,
                 full_state_size = fss, clip_reward = clip,
                 imgs = replicate (nat ms) 0,
                 actions = replicate (nat ms) 0,
                 rewards = replicate (nat ms) 0,
                 terminal = replicate (nat ms) 0,
                 lives = replicate (nat ms) 0,
                 loss_life = replicate (nat ms) 0,
                 gain_life = replicate (nat ms) 0,
                 full_state = replicate (nat ms) (replicate (nat fss) 0),
                 size_rm = 0, imgs_normalized = False, wrap_memory = wrap,
                 bottom_rm = 0, top_rm = 0 \<rparr>"
    using assms(1) by (simp add: init_def)
  then show ?thesis using n assms(2) by (simp add: well_formed_def list_all_iff)
qed

lemma well_formed_ex_full: "well_formed ex_full"
  by (simp add: well_formed_def ex_full_def)

lemma well_formed_ex_wrap: "well_formed ex_wrap"
  by (simp add: well_formed_def ex_wrap_def)

lemma well_formed_ex_episode: "well_formed ex_episode"
  by (simp add: well_formed_def ex_episode_def)














subsection \<open>The window accessor\<close>

lemma take_many_raise:
  "\<forall>i \<in> set ixs. 0 \<le> i \<and> i < int (length xs)
     \<Longrightarrow> take_many Raise xs ixs = Inr (map (\<lambda>i. xs ! nat i) ixs)"
  by (induction ixs) (simp_all add: take1_def take_raise_def)

lemma take_many_wrap:
  "xs \<noteq> [] \<Longrightarrow> take_many Wrap xs ixs = Inr (map (\<lambda>i. xs ! nat (i mod int (length xs))) ixs)"
  by (induction ixs) (simp_all add: take1_def take_wrap_def)

lemma butlast_arange: "butlast (arange a b) = [a..b - 2]"
proof (cases "a \<le> b - 1")
  case True
  then have "[a..b - 1] = [a..b - 1 - 1] @ [b - 1]" by (rule upto_rec2)
  then show ?thesis by (simp add: arange_def)
next
  case False
  then show ?thesis by (simp add: arange_def)
qed

lemma assemble_not_unavailable: "assemble rm key \<noteq> Inr Unavailable"
  by (simp add: assemble_def bind_e_def Let_def split: sum.split)

lemma any_terminal_raise:
  "\<forall>i \<in> set ixs. 0 \<le> i \<and> i < int (length ts)
     \<Longrightarrow> any_terminal Raise ts ixs = Inr (\<exists>i \<in> set ixs. ts ! nat i \<noteq> 0)"
  by (simp add: any_terminal_def take_many_raise bind_e_def list_ex_iff)

lemma any_terminal_wrap:
  "ts \<noteq> [] \<Longrightarrow> any_terminal Wrap ts ixs
     = Inr (\<exists>i \<in> set ixs. ts ! nat (i mod int (length ts)) \<noteq> 0)"
  by (simp add: any_terminal_def take_many_wrap bind_e_def list_ex_iff)

lemma refused_eq:
  assumes "well_formed rm" and "wrap_memory rm \<or> 0 \<le> key"
  shows "refused rm key =
     Inr ((\<not> wrap_memory rm \<and> size_rm rm \<le> key + phi_length rm - 1)
          \<or> (\<exists>i \<in> set [key..key + phi_length rm - 2].
                terminal rm ! nat (if wrap_memory rm then i mod max_steps rm else i) \<noteq> 0))"
proof (cases "wrap_memory rm")
  case True
  then have ne: "terminal rm \<noteq> []" and len: "int (length (terminal rm)) = max_steps rm"
    using assms(1) by (auto simp: well_formed_def)
  show ?thesis
    using True by (simp add: refused_def Let_def butlast_arange any_terminal_wrap[OF ne] len)
next
  case False
  then have k: "0 \<le> key" using assms(2) by simp
  have len: "int (length (terminal rm)) = max_steps rm" "size_rm rm \<le> max_steps rm"
    using assms(1) by (auto simp: well_formed_def)
  show ?thesis
  proof (cases "size_rm rm \<le> key + phi_length rm - 1")
    case True
    then show ?thesis using False by (simp add: refused_def Let_def)
  next
    case inside: False
    have "\<forall>i \<in> set [key..key + phi_length rm - 2]. 0 \<le> i \<and> i < int (length (terminal rm))"
      using k inside len by auto
    from any_terminal_raise[OF this]
    show ?thesis using False inside by (simp add: refused_def Let_def butlast_arange)
  qed
qed

lemma get_item_eq:
  assumes "well_formed rm" and "0 \<le> phi_length rm"
  shows "get_item rm key = bind_e (refused rm key) (\<lambda>no. if no then Inr Unavailable else assemble rm key)"
  using assms by (simp add: get_item_def well_formed_def)

text \<open>A window whose last time step is terminal is assembled without reading a successor.\<close>

lemma assemble_terminal:
  assumes "well_formed rm" and "1 \<le> phi_length rm"
    and "wrap_memory rm \<or> (0 \<le> key \<and> key + phi_length rm - 1 < size_rm rm)"
    and "terminal rm ! nat (if wrap_memory rm then (key + phi_length rm - 1) mod max_steps rm
                            else key + phi_length rm - 1) \<noteq> 0"
  shows "\<exists>s a r n l ll gl. assemble rm key =
           Inr (Window s a r
                  (terminal rm ! nat (if wrap_memory rm then (key + phi_length rm - 1) mod max_steps rm
                                      else key + phi_length rm - 1)) n l ll gl)"
proof (cases "wrap_memory rm")
  case True
  have len: "int (length (imgs rm)) = max_steps rm" "int (length (actions rm)) = max_steps rm"
    "int (length (rewards rm)) = max_steps rm" "int (length (terminal rm)) = max_steps rm"
    "int (length (lives rm)) = max_steps rm" "int (length (loss_life rm)) = max_steps rm"
    "int (length (gain_life rm)) = max_steps rm" "0 < max_steps rm"
    using assms(1) True by (auto simp: well_formed_def)
  then have ne: "imgs rm \<noteq> []" "actions rm \<noteq> []" "rewards rm \<noteq> []" "terminal rm \<noteq> []"
    "lives rm \<noteq> []" "loss_life rm \<noteq> []" "gain_life rm \<noteq> []"
    by auto
  show ?thesis
    using True assms(4) ne len
    by (simp add: assemble_def Let_def bind_e_def take1_def take_wrap_def take_many_wrap)
next
  case False
  then have k: "0 \<le> key" "key + phi_length rm - 1 < size_rm rm" using assms(3) by simp_all
  have len: "int (length (imgs rm)) = max_steps rm" "int (length (actions rm)) = max_steps rm"
    "int (length (rewards rm)) = max_steps rm" "int (length (terminal rm)) = max_steps rm"
    "int (length (lives rm)) = max_steps rm" "int (length (loss_life rm)) = max_steps rm"
    "int (length (gain_life rm)) = max_steps rm" "size_rm rm \<le> max_steps rm"
    using assms(1) by (auto simp: well_formed_def)
  have e: "0 \<le> key + phi_length rm - 1" "key + phi_length rm - 1 < max_steps rm"
    using k assms(2) len by simp_all
  have "\<forall>i \<in> set (arange key (key + phi_length rm)). 0 \<le> i \<and> i < int (length (imgs rm))"
    using k len by (auto simp: arange_def)
  note st = take_many_raise[OF this]
  show ?thesis
    using False assms(4) e len st
    by (simp add: assemble_def Let_def bind_e_def take1_def take_raise_in_range)
qed

text \<open>
  Claim C1. For a logical index \<open>k\<close>, the window accessor returns the unavailable result
  exactly when, in bounded mode, the window would read past \<open>size\<close>, or a terminal flag
  at one of the offsets \<open>k .. k + phi_length - 2\<close> is set (read modulo \<open>max_steps\<close> in
  wrapping mode). A terminal flag at the last offset \<open>k + phi_length - 1\<close> alone does not
  make the window unavailable: the window is returned, with that flag.
\<close>

theorem get_item_unavailable:
  assumes "well_formed rm" and "0 \<le> phi_length rm" and "wrap_memory rm \<or> 0 \<le> key"
  shows "((get_item rm key = Inr Unavailable) \<longleftrightarrow>
            (\<not> wrap_memory rm \<and> size_rm rm \<le> key + phi_length rm - 1)
          \<or> (\<exists>i \<in> set [key..key + phi_length rm - 2].
                terminal rm ! nat (if wrap_memory rm then i mod max_steps rm else i) \<noteq> 0))
       \<and> (1 \<le> phi_length rm
            \<and> \<not> (\<not> wrap_memory rm \<and> size_rm rm \<le> key + phi_length rm - 1)
            \<and> (\<forall>i \<in> set [key..key + phi_length rm - 2].
                  terminal rm ! nat (if wrap_memory rm then i mod max_steps rm else i) = 0)
            \<and> terminal rm ! nat (if wrap_memory rm then (key + phi_length rm - 1) mod max_steps rm
                                  else key + phi_length rm - 1) \<noteq> 0
          \<longrightarrow> (\<exists>s a r n l ll gl. get_item rm key =
                 Inr (Window s a r
                        (terminal rm ! nat (if wrap_memory rm
                                            then (key + phi_length rm - 1) mod max_steps rm
                                            else key + phi_length rm - 1)) n l ll gl)))"
proof (intro conjI impI)
  note g = get_item_eq[OF assms(1,2), of key]
  note r = refused_eq[OF assms(1,3)]
  show "(get_item rm key = Inr Unavailable) \<longleftrightarrow>
            (\<not> wrap_memory rm \<and> size_rm rm \<le> key + phi_length rm - 1)
          \<or> (\<exists>i \<in> set [key..key + phi_length rm - 2].
                terminal rm ! nat (if wrap_memory rm then i mod max_steps rm else i) \<noteq> 0)"
    unfolding g r by (simp add: bind_e_def assemble_not_unavailable)
  assume h: "1 \<le> phi_length rm
            \<and> \<not> (\<not> wrap_memory rm \<and> size_rm rm \<le> key + phi_length rm - 1)
            \<and> (\<forall>i \<in> set [key..key + phi_length rm - 2].
                  terminal rm ! nat (if wrap_memory rm then i mod max_steps rm else i) = 0)
            \<and> terminal rm ! nat (if wrap_memory rm then (key + phi_length rm - 1) mod max_steps rm
                                  else key + phi_length rm - 1) \<noteq> 0"
  have no: "refused rm key = Inr False" unfolding r using h by simp
  have w: "wrap_memory rm \<or> (0 \<le> key \<and> key + phi_length rm - 1 < size_rm rm)"
    using h assms(3) by auto
  from assemble_terminal[OF assms(1) _ w] h
  show "\<exists>s a r n l ll gl. get_item rm key =
                 Inr (Window s a r
                        (terminal rm ! nat (if wrap_memory rm
                                            then (key + phi_length rm - 1) mod max_steps rm
                                            else key + phi_length rm - 1)) n l ll gl)"
    unfolding g no by (simp add: bind_e_def)
qed

subsection \<open>Evaluation on the example buffers\<close>

lemma arange_unfold: "arange a b = (if a < b then a # arange (a + 1) b else [])"
  by (simp add: arange_def upto.simps)

lemmas window_eval = get_item_def refused_def assemble_def any_terminal_def bind_e_def
  take1_def take_raise_def take_wrap_def Let_def arange_unfold eval_nat_numeral

lemma get_item_ex_full_0:
  "get_item ex_full 0 = Inr (Window [10, 11] 1 1 1 [0, 0] 3 0 0)"
  by (simp add: window_eval ex_full_def)

lemma get_item_ex_full_1: "get_item ex_full 1 = Inr Unavailable"
  by (simp add: window_eval ex_full_def)

lemma get_item_ex_episode_0: "get_item ex_episode 0 = Inr Unavailable"
  by (simp add: window_eval ex_episode_def)

lemma get_item_ex_episode_1:
  "get_item ex_episode 1 = Inr (Window [11, 12] 1 0 0 [12, 0] 3 0 0)"
  by (simp add: window_eval ex_episode_def)

theorem get_item_unavailable_witness:
  "well_formed ex_full \<and> 0 \<le> phi_length ex_full \<and> (wrap_memory ex_full \<or> (0::int) \<le> 1)
   \<and> (\<exists>i \<in> set [1..1 + phi_length ex_full - 2]. terminal ex_full ! nat i \<noteq> 0)
   \<and> get_item ex_full 1 = Inr Unavailable
   \<and> 1 \<le> phi_length ex_full \<and> \<not> size_rm ex_full \<le> 0 + phi_length ex_full - 1
   \<and> terminal ex_full ! nat 0 = 0
   \<and> terminal ex_full ! nat (0 + phi_length ex_full - 1) \<noteq> 0
   \<and> (\<exists>s a r n l ll gl. get_item ex_full 0 = Inr (Window s a r 1 n l ll gl))"
proof -
  have h: "0 \<le> phi_length ex_full" "wrap_memory ex_full \<or> (0::int) \<le> 1"
    "wrap_memory ex_full \<or> (0::int) \<le> 0"
    by (simp_all add: ex_full_def)
  have f: "\<not> wrap_memory ex_full" "phi_length ex_full = 2" "size_rm ex_full = 3"
    "terminal ex_full = [0, 1, 0]"
    by (simp_all add: ex_full_def)
  have u: "[1..1 + 2 - 2] = [1::int]" "[0..0 + 2 - 2] = [0::int]"
    by (simp_all add: upto.simps)
  show ?thesis
    using get_item_unavailable[OF well_formed_ex_full h(1,2)]
      get_item_unavailable[OF well_formed_ex_full h(1,3)]
      well_formed_ex_full
    by (simp add: f u)
qed

subsection \<open>The samplers\<close>

lemma take_many_raise_fail:
  "i \<in> set ixs \<Longrightarrow> int (length xs) \<le> i \<Longrightarrow> \<forall>j \<in> set ixs. 0 \<le> j
     \<Longrightarrow> take_many Raise xs ixs = Inl IndexError"
proof (induction ixs)
  case Nil
  then show ?case by simp
next
  case (Cons j ixs)
  show ?case
  proof (cases "j < int (length xs)")
    case True
    then have "i \<in> set ixs" using Cons.prems(1,2) by auto
    then have "take_many Raise xs ixs = Inl IndexError"
      using Cons.IH Cons.prems(2,3) by simp
    then show ?thesis using True Cons.prems(3) by (simp add: take1_def take_raise_def)
  next
    case False
    then show ?thesis using Cons.prems(3) by (simp add: take1_def take_raise_def)
  qed
qed

text \<open>In bounded mode the window is assembled unless its successor lies beyond the arrays.\<close>

lemma assemble_bounded:
  assumes "well_formed rm" and "\<not> wrap_memory rm" and "1 \<le> phi_length rm"
    and "0 \<le> key" and "key + phi_length rm - 1 < size_rm rm"
  shows "(terminal rm ! nat (key + phi_length rm - 1) = 0 \<and> key + phi_length rm = max_steps rm
            \<longrightarrow> assemble rm key = Inl IndexError)
       \<and> (\<not> (terminal rm ! nat (key + phi_length rm - 1) = 0 \<and> key + phi_length rm = max_steps rm)
            \<longrightarrow> (\<exists>s a r t n l ll gl. assemble rm key = Inr (Window s a r t n l ll gl)))"
proof -
  have len: "int (length (imgs rm)) = max_steps rm" "int (length (actions rm)) = max_steps rm"
    "int (length (rewards rm)) = max_steps rm" "int (length (terminal rm)) = max_steps rm"
    "int (length (lives rm)) = max_steps rm" "int (length (loss_life rm)) = max_steps rm"
    "int (length (gain_life rm)) = max_steps rm" "size_rm rm \<le> max_steps rm"
    using assms(1) by (auto simp: well_formed_def)
  have e: "0 \<le> key + phi_length rm - 1" "key + phi_length rm - 1 < max_steps rm"
    using assms(3,4,5) len by simp_all
  have "\<forall>i \<in> set (arange key (key + phi_length rm)). 0 \<le> i \<and> i < int (length (imgs rm))"
    using assms(4,5) len by (auto simp: arange_def)
  note st = take_many_raise[OF this]
  show ?thesis
  proof (cases "terminal rm ! nat (key + phi_length rm - 1) = 0")
    case False
    then show ?thesis
      using assms(2) e len st
      by (simp add: assemble_def Let_def bind_e_def take1_def take_raise_in_range)
  next
    case True
    show ?thesis
    proof (cases "key + phi_length rm = max_steps rm")
      case beyond: True
      have "key + phi_length rm \<in> set (arange (1 + key) (1 + key + phi_length rm))"
        using assms(3) by (simp add: arange_def)
      moreover have "int (length (imgs rm)) \<le> key + phi_length rm"
        using beyond len by simp
      moreover have "\<forall>j \<in> set (arange (1 + key) (1 + key + phi_length rm)). 0 \<le> j"
        using assms(4) by (auto simp: arange_def)
      ultimately have "take_many Raise (imgs rm) (arange (1 + key) (1 + key + phi_length rm))
          = Inl IndexError"
        by (rule take_many_raise_fail)
      then show ?thesis
        using assms(2) True beyond e len st
        by (simp add: assemble_def Let_def bind_e_def take1_def take_raise_in_range)
    next
      case inside: False
      have "\<forall>i \<in> set (arange (1 + key) (1 + key + phi_length rm)).
              0 \<le> i \<and> i < int (length (imgs rm))"
        using assms(4,5) len inside by (auto simp: arange_def)
      note nx = take_many_raise[OF this]
      show ?thesis
        using assms(2) True inside e len st nx
        by (simp add: assemble_def Let_def bind_e_def take1_def take_raise_in_range)
    qed
  qed
qed

lemma sample2_loop_no_batch:
  "count < batch_size \<Longrightarrow> sample2_loop rm batch_size 0 high count acc draws \<noteq> Some (Inr b)"
  by (cases draws) (auto split: sum.splits fetched.splits)

lemma sample2_no_batch:
  assumes "1 \<le> batch_size"
  shows "sample2 rm batch_size nrm 0 onevsall n_class draws \<noteq> Some (Inr b)"
proof -
  have "0 < batch_size" using assms by simp
  then have L: "sample2_loop rm batch_size 0 high 0 acc draws \<noteq> Some (Inr b)" for high acc
    by (rule sample2_loop_no_batch)
  show ?thesis
    unfolding sample2_def Let_def using L by (simp del: sample2_loop.simps)
qed

text \<open>
  Claim C5, as amended. In bounded mode, with the sampling precondition and
  \<open>batch_size \<ge> 1\<close>, \<open>sample2\<close> with \<open>k_bad_states = 0\<close> never returns a batch: it raises
  at its first draw. The exception is ValueError when the drawn window is unavailable
  (six values are unpacked into eight names), IndexError when the accessor reads the
  successor frame beyond the arrays, and NameError (the unbound name \<open>s\<close>) otherwise.
\<close>

theorem sample2_never_returns:
  assumes "1 \<le> batch_size"
  shows "sample2 rm batch_size nrm 0 onevsall n_class draws \<noteq> Some (Inr b)
       \<and> (well_formed rm \<and> \<not> wrap_memory rm \<and> 1 \<le> phi_length rm
            \<and> 0 < size_rm rm + 1 - phi_length rm \<and> (onevsall \<or> 0 \<le> num_actions rm) \<longrightarrow>
          sample2 rm batch_size nrm 0 onevsall n_class (d # ds) =
            Some (Inl (let index = int d mod (size_rm rm + 1 - phi_length rm) in
                       if \<exists>i \<in> set [index..index + phi_length rm - 2]. terminal rm ! nat i \<noteq> 0
                         then ValueError
                       else if terminal rm ! nat (index + phi_length rm - 1) = 0
                               \<and> index + phi_length rm = max_steps rm
                         then IndexError
                       else NameError)))"
proof (intro conjI impI)
  show "sample2 rm batch_size nrm 0 onevsall n_class draws \<noteq> Some (Inr b)"
    using assms by (rule sample2_no_batch)
  assume h: "well_formed rm \<and> \<not> wrap_memory rm \<and> 1 \<le> phi_length rm
            \<and> 0 < size_rm rm + 1 - phi_length rm \<and> (onevsall \<or> 0 \<le> num_actions rm)"
  define high where "high = size_rm rm + 1 - phi_length rm"
  define index where "index = int d mod high"
  have hp: "0 < high" using h by (simp add: high_def)
  have ix: "0 \<le> index" "index < high" using hp by (simp_all add: index_def)
  have wf: "well_formed rm" and nw: "\<not> wrap_memory rm" and phi: "1 \<le> phi_length rm"
    using h by simp_all
  have dims: "0 \<le> height rm" "0 \<le> width rm" using wf by (simp_all add: well_formed_def)
  have inside: "index + phi_length rm - 1 < size_rm rm" using ix by (simp add: high_def)
  have r: "randint 0 high d = Inr index" using hp by (simp add: randint_def index_def)
  have g: "get_item rm index
      = bind_e (refused rm index) (\<lambda>no. if no then Inr Unavailable else assemble rm index)"
    using wf phi by (simp add: get_item_eq)
  define A where "A \<longleftrightarrow> (\<exists>i \<in> set [index..index + phi_length rm - 2]. terminal rm ! nat i \<noteq> 0)"
  define B where "B \<longleftrightarrow> (terminal rm ! nat (index + phi_length rm - 1) = 0
                               \<and> index + phi_length rm = max_steps rm)"
  have rf: "refused rm index = Inr A"
    unfolding A_def using refused_eq[OF wf, of index] ix nw inside by simp
  have ab: "(B \<longrightarrow> assemble rm index = Inl IndexError)
       \<and> (\<not> B \<longrightarrow> (\<exists>s a r t n l ll gl. assemble rm index = Inr (Window s a r t n l ll gl)))"
    unfolding B_def by (rule assemble_bounded[OF wf nw phi ix(1) inside])
  have loopAB: "sample2_loop rm batch_size 0 high 0 acc (d # ds) =
      Some (Inl (if A then ValueError else if B then IndexError else NameError))" for acc
  proof (cases A)
    case True
    then have "get_item rm index = Inr Unavailable" unfolding g rf by (simp add: bind_e_def)
    then show ?thesis using assms r True by simp
  next
    case False
    then have ga: "get_item rm index = assemble rm index" unfolding g rf by (simp add: bind_e_def)
    show ?thesis
    proof (cases B)
      case True
      with ab have "assemble rm index = Inl IndexError" by blast
      then have "get_item rm index = Inl IndexError" using ga by simp
      then show ?thesis using assms r False True by simp
    next
      case nb: False
      then obtain s a rw t n l ll gl where "assemble rm index = Inr (Window s a rw t n l ll gl)"
        using ab by blast
      then have "get_item rm index = Inr (Window s a rw t n l ll gl)" using ga by simp
      then show ?thesis using assms r False nb by simp
    qed
  qed
  note loop = loopAB[unfolded A_def B_def]
  show "sample2 rm batch_size nrm 0 onevsall n_class (d # ds) =
            Some (Inl (let index = int d mod (size_rm rm + 1 - phi_length rm) in
                       if \<exists>i \<in> set [index..index + phi_length rm - 2]. terminal rm ! nat i \<noteq> 0
                         then ValueError
                       else if terminal rm ! nat (index + phi_length rm - 1) = 0
                               \<and> index + phi_length rm = max_steps rm
                         then IndexError
                       else NameError))"
  proof -
    have na: "\<not> (\<not> onevsall \<and> num_actions rm < 0)" using h by auto
    have nd: "\<not> (batch_size < 0 \<or> height rm < 0 \<or> width rm < 0 \<or> phi_length rm < 0)"
      using assms dims phi by simp
    have hp': "size_rm rm + 1 - phi_length rm > 0" using hp by (simp add: high_def)
    show ?thesis
      unfolding sample2_def Let_def if_not_P[OF nw] if_not_P[OF nd] if_not_P[OF na]
        not_not if_P[OF hp'] loop[unfolded high_def index_def high_def]
      using hp' by simp
  qed
qed

lemmas sample2_eval = sample2_def randint_def bad_ahead_def py_slice_def

theorem sample2_never_returns_witness:
  "(1::int) \<le> 1 \<and> well_formed ex_episode \<and> \<not> wrap_memory ex_episode
   \<and> 1 \<le> phi_length ex_episode \<and> 0 < size_rm ex_episode + 1 - phi_length ex_episode
   \<and> (False \<or> 0 \<le> num_actions ex_episode)
   \<and> sample2 ex_episode 1 False 0 False None [1, 0] = Some (Inl NameError)"
proof -
  have h: "\<not> wrap_memory ex_episode" "1 \<le> phi_length ex_episode"
    "0 < size_rm ex_episode + 1 - phi_length ex_episode" "False \<or> 0 \<le> num_actions ex_episode"
    by (simp_all add: ex_episode_def)
  have f: "phi_length ex_episode = 2" "size_rm ex_episode = 3" "max_steps ex_episode = 4"
    "terminal ex_episode = [1, 0, 0, 0]"
    by (simp_all add: ex_episode_def)
  have u: "[1..1 + 2 - 2] = [1::int]" by (simp add: upto.simps)
  have one: "(1::int) \<le> 1" by simp
  show ?thesis
    using sample2_never_returns[OF one, of ex_episode False False None "[1, 0]" undefined 1 "[0]"]
      well_formed_ex_episode h
    by (simp add: f u)
qed

theorem sample2_value_error_counterexample:
  "\<not> wrap_memory ex_episode \<and> 0 < size_rm ex_episode + 1 - phi_length ex_episode
   \<and> sample2 ex_episode 1 False 0 False None [0] = Some (Inl ValueError)"
  by (simp add: sample2_eval get_item_ex_episode_0) (simp add: ex_episode_def)

text \<open>
  Claim C4. The window at index 0 of the example crosses the end of an episode and the
  accessor reports it as unavailable, raising nothing; the window at index 1 is
  available. \<open>sample2\<close>, drawing index 0 and then index 1, does not go on to the second
  draw: unpacking the unavailable result raises ValueError.
\<close>

theorem sample2_does_not_retry:
  "get_item ex_episode 0 = Inr Unavailable
   \<and> get_item ex_episode 1 = Inr (Window [11, 12] 1 0 0 [12, 0] 3 0 0)
   \<and> sample2 ex_episode 1 False 0 False None [0, 1] = Some (Inl ValueError)"
  by (simp add: sample2_eval get_item_ex_episode_0 get_item_ex_episode_1) (simp add: ex_episode_def)

text \<open>
  The sibling sampler \<open>sample\<close> on a wrapping buffer: a draw whose window crosses the end
  of an episode is skipped and the next draw is taken.
\<close>

lemma sample_retries_example:
  "sample ex_ring 1 False False None [0, 1]
     = Some (Inr ([[11, 12]], [[0, 1]], [0], [0], [[12, 13]]))"
  by (simp add: sample_def randint_def store_def set_item_def window_eval ex_ring_def)

subsection \<open>resize\<close>

lemma np_delete_range_tail:
  assumes "0 \<le> lo" and "lo \<le> int (length xs)"
  shows "np_delete_range xs lo (int (length xs)) = Inr (take (nat lo) xs)"
proof -
  let ?n = "int (length xs)"
  let ?dels = "map (\<lambda>i. nat (if i < 0 then i + ?n else i)) [lo..?n - 1]"
  have ok: "\<not> list_ex (\<lambda>i. i < - ?n \<or> ?n \<le> i) [lo..?n - 1]"
    using assms by (auto simp: list_ex_iff)
  have dels: "?dels = map nat [lo..?n - 1]"
    using assms(1) by (intro map_cong) auto
  have mem: "(k \<in> set (map nat [lo..?n - 1])) = (nat lo \<le> k)" if "k < length xs" for k
  proof
    assume "k \<in> set (map nat [lo..?n - 1])"
    then obtain i where "lo \<le> i" "k = nat i" by auto
    then show "nat lo \<le> k" by simp
  next
    assume "nat lo \<le> k"
    then have "lo \<le> int k" "int k \<le> ?n - 1" "k = nat (int k)"
      using that assms(1) by auto
    then have "int k \<in> set [lo..?n - 1]" by simp
    then have "nat (int k) \<in> nat ` set [lo..?n - 1]" by (rule imageI)
    then show "k \<in> set (map nat [lo..?n - 1])" by simp
  qed
  have "filter (\<lambda>p. snd p \<notin> set ?dels) (zip xs [0..<length xs])
      = filter (\<lambda>p. snd p \<in> {..<nat lo}) (zip xs [0..<length xs])"
    unfolding dels
  proof (rule filter_cong[OF refl])
    fix p assume "p \<in> set (zip xs [0..<length xs])"
    then have "snd p < length xs" by (auto simp: set_zip)
    from mem[OF this] show "(snd p \<notin> set (map nat [lo..?n - 1])) = (snd p \<in> {..<nat lo})"
      by auto
  qed
  then have "map fst (filter (\<lambda>p. snd p \<notin> set ?dels) (zip xs [0..<length xs]))
      = nths xs {..<nat lo}"
    by (simp add: nths_def)
  then have "map fst (filter (\<lambda>p. snd p \<notin> set ?dels) (zip xs [0..<length xs])) = take (nat lo) xs"
    by simp
  then show ?thesis
    using ok unfolding np_delete_range_def Let_def by simp
qed

lemma resize_well_formed:
  assumes "well_formed rm"
  shows "resize rm =
           (rm\<lparr> imgs := take (nat (size_rm rm)) (imgs rm),
                 actions := take (nat (size_rm rm)) (actions rm),
                 rewards := take (nat (size_rm rm)) (rewards rm),
                 terminal := take (nat (size_rm rm)) (terminal rm),
                 lives := take (nat (size_rm rm)) (lives rm),
                 loss_life := take (nat (size_rm rm)) (loss_life rm),
                 gain_life := take (nat (size_rm rm)) (gain_life rm),
                 full_state := take (nat (size_rm rm)) (full_state rm),
                 max_steps := size_rm rm \<rparr>, None)"
proof -
  have s: "0 \<le> size_rm rm" using assms by (simp add: well_formed_def)
  have d: "np_delete_range xs (size_rm rm) (max_steps rm) = Inr (take (nat (size_rm rm)) xs)"
    if "int (length xs) = max_steps rm" for xs :: "'b list"
  proof -
    have "size_rm rm \<le> int (length xs)" using assms that by (simp add: well_formed_def)
    from np_delete_range_tail[OF s this] show ?thesis using that by simp
  qed
  have L: "int (length (imgs rm)) = max_steps rm" "int (length (actions rm)) = max_steps rm"
    "int (length (rewards rm)) = max_steps rm" "int (length (terminal rm)) = max_steps rm"
    "int (length (lives rm)) = max_steps rm" "int (length (loss_life rm)) = max_steps rm"
    "int (length (gain_life rm)) = max_steps rm" "int (length (full_state rm)) = max_steps rm"
    using assms by (simp_all add: well_formed_def)
  show ?thesis
    by (simp add: resize_def Let_def bind_e_def d[OF L(1)] d[OF L(2)] d[OF L(3)] d[OF L(4)]
        d[OF L(5)] d[OF L(6)] d[OF L(7)] d[OF L(8)])
qed

text \<open>
  Claim C6, as amended. \<open>resize\<close> has no check of the mode: in wrapping mode as in
  bounded mode, called directly or through \<open>save\<close> with \<open>resize=True\<close>, it raises
  nothing, cuts every parallel array down to its first \<open>size\<close> rows and sets \<open>max_steps\<close>
  to \<open>size\<close>; the cursors \<open>top\<close> and \<open>bottom\<close> stay as they are.
\<close>

theorem resize_any_mode:
  assumes "well_formed rm"
  shows "resize rm =
           (rm\<lparr> imgs := take (nat (size_rm rm)) (imgs rm),
                 actions := take (nat (size_rm rm)) (actions rm),
                 rewards := take (nat (size_rm rm)) (rewards rm),
                 terminal := take (nat (size_rm rm)) (terminal rm),
                 lives := take (nat (size_rm rm)) (lives rm),
                 loss_life := take (nat (size_rm rm)) (loss_life rm),
                 gain_life := take (nat (size_rm rm)) (gain_life rm),
                 full_state := take (nat (size_rm rm)) (full_state rm),
                 max_steps := size_rm rm \<rparr>, None)
       \<and> snd (save rm (Some nm) (Some fd) True fs) = None
       \<and> fst (fst (save rm (Some nm) (Some fd) True fs)) = fst (resize rm)"
proof -
  note r = resize_well_formed[OF assms]
  have "snd (save rm (Some nm) (Some fd) True fs) = None
       \<and> fst (fst (save rm (Some nm) (Some fd) True fs)) = fst (resize rm)"
    unfolding save_def r by (simp add: Let_def)
  then show ?thesis using r by simp
qed

theorem resize_any_mode_witness:
  "well_formed ex_wrap \<and> wrap_memory ex_wrap
   \<and> resize ex_wrap =
       (ex_wrap\<lparr> imgs := [10], actions := [1], rewards := [1], terminal := [0],
                 lives := [3], loss_life := [0], gain_life := [0],
                 full_state := [[4, 5]], max_steps := 1 \<rparr>, None)"
proof -
  have v: "ex_wrap\<lparr> imgs := take (nat (size_rm ex_wrap)) (imgs ex_wrap),
                 actions := take (nat (size_rm ex_wrap)) (actions ex_wrap),
                 rewards := take (nat (size_rm ex_wrap)) (rewards ex_wrap),
                 terminal := take (nat (size_rm ex_wrap)) (terminal ex_wrap),
                 lives := take (nat (size_rm ex_wrap)) (lives ex_wrap),
                 loss_life := take (nat (size_rm ex_wrap)) (loss_life ex_wrap),
                 gain_life := take (nat (size_rm ex_wrap)) (gain_life ex_wrap),
                 full_state := take (nat (size_rm ex_wrap)) (full_state ex_wrap),
                 max_steps := size_rm ex_wrap \<rparr>
     = ex_wrap\<lparr> imgs := [10], actions := [1], rewards := [1], terminal := [0],
                 lives := [3], loss_life := [0], gain_life := [0],
                 full_state := [[4, 5]], max_steps := 1 \<rparr>"
    by (simp add: ex_wrap_def)
  have w: "wrap_memory ex_wrap" by (simp add: ex_wrap_def)
  show ?thesis
    using resize_any_mode[OF well_formed_ex_wrap, of "''demo''" "''out''" "\<lambda>p. None"]
      well_formed_ex_wrap w
    unfolding v by simp
qed

theorem resize_wrapping_counterexample:
  "wrap_memory ex_wrap \<and> snd (resize ex_wrap) = None
   \<and> max_steps ex_wrap = 3 \<and> max_steps (fst (resize ex_wrap)) = 1
   \<and> imgs ex_wrap = [10, 0, 0] \<and> imgs (fst (resize ex_wrap)) = [10]"
  by (simp add: resize_well_formed[OF well_formed_ex_wrap]) (simp add: ex_wrap_def)

subsection \<open>save and load\<close>

text \<open>
  Claim C7. \<open>save(name, folder)\<close> followed by \<open>load(name, folder)\<close> into any buffer gives
  a buffer that has every scalar field and every array of the saved one (the image
  array through the archive), except \<open>clip_reward\<close>, which is not saved.
\<close>

theorem save_load_roundtrip:
  assumes "well_formed rm"
  shows "snd (save rm (Some nm) (Some fd) False fs) = None
       \<and> fst (fst (save rm (Some nm) (Some fd) False fs)) = rm
       \<and> load rm0 (Some nm) (Some fd) (snd (fst (save rm (Some nm) (Some fd) False fs)))
           = (rm\<lparr> clip_reward := clip_reward rm0 \<rparr>, None)"
proof -
  have n: "0 \<le> max_steps rm" "0 \<le> full_state_size rm"
    using assms by (simp_all add: well_formed_def)
  have "load rm0 (Some nm) (Some fd) (snd (fst (save rm (Some nm) (Some fd) False fs)))
           = (rm\<lparr> clip_reward := clip_reward rm0 \<rparr>, None)"
    using n
    by (simp add: save_def load_def Let_def save_compressed_images_def
        get_compressed_images_def lift_upd_def)
  then show ?thesis by (simp add: save_def Let_def)
qed

theorem save_load_roundtrip_witness:
  "well_formed ex_full
   \<and> snd (save ex_full (Some ''demo'') (Some ''out'') False (\<lambda>p. None)) = None
   \<and> load ex_bounded (Some ''demo'') (Some ''out'')
        (snd (fst (save ex_full (Some ''demo'') (Some ''out'') False (\<lambda>p. None))))
       = (ex_full, None)"
proof -
  have c: "ex_full\<lparr> clip_reward := clip_reward ex_bounded \<rparr> = ex_full"
    by (simp add: ex_full_def ex_bounded_def)
  show ?thesis
    using save_load_roundtrip[OF well_formed_ex_full, of "''demo''" "''out''" "\<lambda>p. None" ex_bounded]
      well_formed_ex_full
    unfolding c by simp
qed

subsection \<open>propagate\_rewards\<close>

lemma run_steps_append:
  "run_steps (fs @ gs) s =
     (case run_steps fs s of (s', None) \<Rightarrow> run_steps gs s' | (s', Some e) \<Rightarrow> (s', Some e))"
  by (induction fs arbitrary: s) (simp_all split: sum.split)

lemma discount_step_ok:
  assumes "0 \<le> i" and "i + 1 < int (length (rewards s))"
  shows "discount_step g i s =
    Inr (s\<lparr> rewards := (rewards s)[nat i := rewards s ! nat i + g * rewards s ! nat (i + 1)] \<rparr>)"
  using assms by (simp add: discount_step_def bind_e_def lift_upd_def take_raise_def set_item_def)

lemma discount_loop:
  "int n + 1 < int (length (rewards s)) \<Longrightarrow>
   \<exists>rs'. run_steps (map (discount_step g) (rev [1..int n])) s = (s\<lparr> rewards := rs' \<rparr>, None)
     \<and> length rs' = length (rewards s)
     \<and> (\<forall>i. 1 \<le> i \<and> i \<le> n \<longrightarrow> rs' ! i = rewards s ! i + g * rs' ! (i + 1))
     \<and> (\<forall>j. j = 0 \<or> n < j \<longrightarrow> rs' ! j = rewards s ! j)"
proof (induction n arbitrary: s)
  case 0
  have "s\<lparr> rewards := rewards s \<rparr> = s" by simp
  then show ?case by (intro exI[of _ "rewards s"]) simp
next
  case (Suc n)
  let ?rs = "rewards s"
  let ?rs1 = "?rs[Suc n := ?rs ! Suc n + g * ?rs ! Suc (Suc n)]"
  let ?s1 = "s\<lparr> rewards := ?rs1 \<rparr>"
  have up: "[1..int (Suc n)] = [1..int n] @ [int (Suc n)]"
    using upto_rec2[of 1 "int (Suc n)"] by simp
  have st: "discount_step g (int (Suc n)) s = Inr ?s1"
    using discount_step_ok[of "int (Suc n)" s g] Suc.prems
    by (simp add: nat_add_distrib)
  have "int n + 1 < int (length (rewards ?s1))" using Suc.prems by simp
  from Suc.IH[OF this] obtain rs' where
    run: "run_steps (map (discount_step g) (rev [1..int n])) ?s1 = (?s1\<lparr> rewards := rs' \<rparr>, None)"
    and len: "length rs' = length ?rs1"
    and rec: "\<forall>i. 1 \<le> i \<and> i \<le> n \<longrightarrow> rs' ! i = ?rs1 ! i + g * rs' ! (i + 1)"
    and same: "\<forall>j. j = 0 \<or> n < j \<longrightarrow> rs' ! j = ?rs1 ! j"
    by auto
  have b: "Suc (Suc n) < length ?rs" using Suc.prems by simp
  have r1: "run_steps (map (discount_step g) (rev [1..int (Suc n)])) s = (s\<lparr> rewards := rs' \<rparr>, None)"
    unfolding up using st run by simp
  have r2: "length rs' = length ?rs" using len by simp
  have r3: "rs' ! i = ?rs ! i + g * rs' ! (i + 1)" if "1 \<le> i \<and> i \<le> Suc n" for i
  proof (cases "i = Suc n")
    case True
    have "rs' ! Suc n = ?rs1 ! Suc n" using same by simp
    moreover have "rs' ! Suc (Suc n) = ?rs1 ! Suc (Suc n)" using same by simp
    ultimately show ?thesis using True b by simp
  next
    case False
    then have "1 \<le> i \<and> i \<le> n" using that by simp
    then have "rs' ! i = ?rs1 ! i + g * rs' ! (i + 1)" using rec by blast
    then show ?thesis using False by simp
  qed
  have r4: "rs' ! j = ?rs ! j" if "j = 0 \<or> Suc n < j" for j
  proof -
    have "rs' ! j = ?rs1 ! j" using same that by auto
    then show ?thesis using that by auto
  qed
  show ?case using r1 r2 r3 r4 by blast
qed

lemma discount_all:
  assumes "size_rm rm \<le> int (length (rewards s))"
  shows "\<exists>rs'. run_steps (map (discount_step g) (rev [1..size_rm rm - 2])) s
                  = (s\<lparr> rewards := rs' \<rparr>, None)
     \<and> length rs' = length (rewards s)
     \<and> (\<forall>i. 1 \<le> i \<and> int i \<le> size_rm rm - 2 \<longrightarrow> rs' ! i = rewards s ! i + g * rs' ! (i + 1))
     \<and> (\<forall>j. j = 0 \<or> size_rm rm - 2 < int j \<longrightarrow> rs' ! j = rewards s ! j)"
proof (cases "size_rm rm - 2 < 1")
  case True
  then have e: "[1..size_rm rm - 2] = []" by simp
  have "s\<lparr> rewards := rewards s \<rparr> = s" by simp
  then show ?thesis using True unfolding e by (intro exI[of _ "rewards s"]) auto
next
  case False
  define n where "n = nat (size_rm rm - 2)"
  have n: "int n = size_rm rm - 2" using False by (simp add: n_def)
  have "int n + 1 < int (length (rewards s))" using assms n by simp
  from discount_loop[OF this, of g] obtain rs' where
    "run_steps (map (discount_step g) (rev [1..int n])) s = (s\<lparr> rewards := rs' \<rparr>, None)"
    "length rs' = length (rewards s)"
    "\<forall>i. 1 \<le> i \<and> i \<le> n \<longrightarrow> rs' ! i = rewards s ! i + g * rs' ! (i + 1)"
    "\<forall>j. j = 0 \<or> n < j \<longrightarrow> rs' ! j = rewards s ! j"
    by blast
  then have "run_steps (map (discount_step g) (rev [1..size_rm rm - 2])) s = (s\<lparr> rewards := rs' \<rparr>, None)
     \<and> length rs' = length (rewards s)
     \<and> (\<forall>i. 1 \<le> i \<and> int i \<le> size_rm rm - 2 \<longrightarrow> rs' ! i = rewards s ! i + g * rs' ! (i + 1))
     \<and> (\<forall>j. j = 0 \<or> size_rm rm - 2 < int j \<longrightarrow> rs' ! j = rewards s ! j)"
    unfolding n[symmetric] by simp
  then show ?thesis by blast
qed

lemmas rewards_eval = propagate_rewards_def discount_step_def bind_e_def lift_upd_def
  take_raise_def set_item_def upto.simps Let_def

lemma propagate_ex_rewards:
  "propagate_rewards ex_rewards (95 / 100) False False False False 0
     = (ex_rewards\<lparr> rewards := [0, 95 / 100, 1, 0] \<rparr>, None)"
  by (simp add: rewards_eval ex_rewards_def)

text \<open>
  Claim C8. With clipping, outlier suppression, normalisation and min-max scaling off,
  \<open>propagate_rewards\<close> changes the rewards array only: for \<open>i\<close> from \<open>size - 2\<close> down to 1
  it sets \<open>reward[i]\<close> to \<open>reward[i] + gamma * reward[i + 1]\<close>, the entry \<open>i + 1\<close> being the
  one already updated; index 0, index \<open>size - 1\<close> and the entries beyond stay as they
  were. With \<open>gamma = 0.95\<close> the rewards 0, 0, 1, 0 (\<open>size = 4\<close>) become 0, 0.95, 1, 0.
\<close>

theorem propagate_rewards_discount:
  assumes "well_formed rm"
  shows "(let rm' = fst (propagate_rewards rm gamma False False False False max_reward);
              rs' = rewards rm'
          in rm' = rm\<lparr> rewards := rs' \<rparr> \<and> length rs' = length (rewards rm)
             \<and> (\<forall>i. 1 \<le> i \<and> int i \<le> size_rm rm - 2 \<longrightarrow>
                    rs' ! i = rewards rm ! i + gamma * rs' ! (i + 1))
             \<and> (\<forall>j. j = 0 \<or> size_rm rm - 2 < int j \<longrightarrow> rs' ! j = rewards rm ! j))
       \<and> propagate_rewards ex_rewards (95 / 100) False False False False 0
           = (ex_rewards\<lparr> rewards := [0, 95 / 100, 1, 0] \<rparr>, None)"
proof -
  have "size_rm rm \<le> int (length (rewards rm))" using assms by (simp add: well_formed_def)
  from discount_all[OF this, of gamma] obtain rs' where
    run: "run_steps (map (discount_step gamma) (rev [1..size_rm rm - 2])) rm
            = (rm\<lparr> rewards := rs' \<rparr>, None)"
    and p: "length rs' = length (rewards rm)"
      "\<forall>i. 1 \<le> i \<and> int i \<le> size_rm rm - 2 \<longrightarrow> rs' ! i = rewards rm ! i + gamma * rs' ! (i + 1)"
      "\<forall>j. j = 0 \<or> size_rm rm - 2 < int j \<longrightarrow> rs' ! j = rewards rm ! j"
    by blast
  have "fst (propagate_rewards rm gamma False False False False max_reward) = rm\<lparr> rewards := rs' \<rparr>"
    unfolding propagate_rewards_def by (simp add: run_steps_append run)
  then show ?thesis using p propagate_ex_rewards by (simp add: Let_def)
qed

theorem propagate_rewards_discount_witness:
  "well_formed ex_rewards
   \<and> (1 \<le> (1::nat) \<and> int 1 \<le> size_rm ex_rewards - 2)
   \<and> fst (propagate_rewards ex_rewards (95 / 100) False False False False 0)
       = ex_rewards\<lparr> rewards := [0, 95 / 100, 1, 0] \<rparr>
   \<and> rewards (fst (propagate_rewards ex_rewards (95 / 100) False False False False 0)) ! 1
       = rewards ex_rewards ! 1
         + 95 / 100 * rewards (fst (propagate_rewards ex_rewards (95 / 100) False False False False 0)) ! 2"
proof -
  have wf: "well_formed ex_rewards" by (simp add: well_formed_def ex_rewards_def)
  have s: "int 1 \<le> size_rm ex_rewards - 2" by (simp add: ex_rewards_def)
  have r: "rewards ex_rewards = [0, 0, 1, 0]" by (simp add: ex_rewards_def)
  show ?thesis
    using propagate_rewards_discount[OF wf, of "95 / 100" 0] wf s
    by (simp add: Let_def r)
qed

lemma suppress_outliers_length: "length (suppress_outliers rs m) = length rs"
proof -
  have "length (fold (\<lambda>outlier cur.
                    if outlier \<noteq> 0
                    then map (\<lambda>r. if r = outlier then (if outlier > 0 then m else - m) else r) cur
                    else cur) os cur) = length cur" for os cur
    by (induction os arbitrary: cur) simp_all
  then show ?thesis by (simp add: suppress_outliers_def Let_def)
qed

text \<open>
  Claim C9. With \<open>minmax_scale = True\<close> \<open>propagate_rewards\<close> does not complete: after the
  discounted propagation, line 110 reads the name \<open>scaler\<close>, which is bound nowhere, and
  NameError is raised; the rewards are not rescaled.
\<close>

theorem propagate_rewards_minmax_raises:
  assumes "well_formed rm"
  shows "snd (propagate_rewards rm gamma clip nrm True exclude_outlier max_reward) = Some NameError"
proof -
  define s1 where "s1 = (if clip then rm\<lparr> rewards := clip_rewards (rewards rm) \<rparr>
                  else if exclude_outlier \<and> max_reward \<noteq> 0
                    then rm\<lparr> rewards := suppress_outliers (rewards rm) max_reward \<rparr>
                  else rm)"
  define s2 where "s2 = (if nrm \<and> max_reward \<noteq> 0
                  then s1\<lparr> rewards := map (\<lambda>r. r / max_reward) (rewards s1) \<rparr> else s1)"
  have "length (rewards s2) = length (rewards rm)"
    by (simp add: s1_def s2_def clip_rewards_def suppress_outliers_length)
  then have "size_rm rm \<le> int (length (rewards s2))" using assms by (simp add: well_formed_def)
  from discount_all[OF this, of gamma] obtain rs' where
    run: "run_steps (map (discount_step gamma) (rev [1..size_rm rm - 2])) s2
            = (s2\<lparr> rewards := rs' \<rparr>, None)"
    by blast
  show ?thesis
    unfolding propagate_rewards_def
    by (simp add: run_steps_append run s1_def[symmetric] s2_def[symmetric])
qed

theorem propagate_rewards_minmax_raises_witness:
  "well_formed ex_rewards
   \<and> snd (propagate_rewards ex_rewards (95 / 100) False False True False 0) = Some NameError"
proof -
  have wf: "well_formed ex_rewards" by (simp add: well_formed_def ex_rewards_def)
  show ?thesis
    using propagate_rewards_minmax_raises[OF wf, of "95 / 100" False False False 0] wf by simp
qed

end
